theory Spec2Isabelle
  imports Complex_Main
begin

section \<open>The 54-card betting game of \<open>card_game.py\<close>\<close>

text \<open>
  The development follows the source file top down: cards and their point values, the
  deck with its constructor and \<open>draw\<close>, the player ledger, the two scoring functions,
  the bet prompt and the round itself.

  Conventions of the embedding.
  \<^item> A raised exception is a value \<open>Inl e\<close> of a sum type; a normal return is \<open>Inr v\<close>.
  \<^item> Python strings are \<open>string\<close>s; the four suit symbols, which lie outside ASCII, are
    written as their UTF-8 bytes.
  \<^item> Monetary amounts (\<open>float\<close> in the source) are exact rationals, so rounding and
    the special float values are outside the model.
  \<^item> Console narration (\<open>print\<close>) has no effect on any value and is left out.
\<close>

subsection \<open>Exceptions\<close>

datatype error =
    NotEnoughCards            \<comment> \<open>\<open>ValueError("Not enough cards to draw")\<close>\<close>
  | CannotCover string rat    \<comment> \<open>\<open>ValueError(f"{name} cannot cover ${amount:.2f}")\<close>\<close>
  | InvalidLiteral string     \<comment> \<open>the \<open>ValueError\<close> of \<open>int(rank)\<close>\<close>
  | IndexError                \<comment> \<open>\<open>hand[0]\<close> on an empty hand\<close>
  | EOFError                  \<comment> \<open>\<open>input()\<close> at the end of the console input\<close>

subsection \<open>Constants\<close>

definition digit_chars :: string where
  "digit_chars = ''0123456789''"

text \<open>Python's \<open>str(n)\<close> for a non-negative integer: its decimal digits.\<close>

fun str_nat :: "nat \<Rightarrow> string" where
  "str_nat n = (if n < 10 then [digit_chars ! n]
                else str_nat (n div 10) @ [digit_chars ! (n mod 10)])"

definition SUITS :: "string list" where
  "SUITS = [[CHR 0xE2, CHR 0x99, CHR 0xA0], [CHR 0xE2, CHR 0x99, CHR 0xA5],
            [CHR 0xE2, CHR 0x99, CHR 0xA6], [CHR 0xE2, CHR 0x99, CHR 0xA3]]"

definition RANKS :: "string list" where
  "RANKS = [''A''] @ map str_nat [2..<11] @ [''J'', ''Q'', ''K'']"

definition JOKER :: string where
  "JOKER = ''JOKER''"

subsection \<open>Reading an integer literal\<close>

text \<open>
  \<open>int(s)\<close> on a string: surrounding whitespace is dropped, one sign is allowed, and the
  rest must be decimal digits, where single underscores may stand between digits. Anything
  else raises \<open>ValueError\<close>. (Python also reads digits and blanks of other scripts; only
  the ASCII ones are read here, and the ranks of this program are ASCII.)
\<close>

definition digit_val :: "char \<Rightarrow> nat option" where
  "digit_val c = map_of (zip digit_chars [0..<10]) c"

definition is_space :: "char \<Rightarrow> bool" where
  "is_space c = (c \<in> set [CHR '' '', CHR 0x09, CHR 0x0A, CHR 0x0B, CHR 0x0C, CHR 0x0D,
                           CHR 0x1C, CHR 0x1D, CHR 0x1E, CHR 0x1F])"

definition strip :: "string \<Rightarrow> string" where
  "strip s = rev (dropWhile is_space (rev (dropWhile is_space s)))"

fun digits_from :: "nat \<Rightarrow> string \<Rightarrow> nat option" where
  "digits_from acc [] = Some acc"
| "digits_from acc (c # cs) =
     (case digit_val c of
        Some d \<Rightarrow> digits_from (10 * acc + d) cs
      | None \<Rightarrow>
          (if c = CHR ''_'' then
             (case cs of
                [] \<Rightarrow> None
              | c' # _ \<Rightarrow> (if digit_val c' = None then None else digits_from acc cs))
           else None))"

definition digits :: "string \<Rightarrow> nat option" where
  "digits s = (case s of
                 [] \<Rightarrow> None
               | c # _ \<Rightarrow> (if digit_val c = None then None else digits_from 0 s))"

definition py_int :: "string \<Rightarrow> error + int" where
  "py_int s =
     (let t = strip s;
          neg = (case t of [] \<Rightarrow> False | c # _ \<Rightarrow> c = CHR ''-'');
          body = (case t of [] \<Rightarrow> []
                  | c # cs \<Rightarrow> (if c = CHR ''-'' \<or> c = CHR ''+'' then cs else t))
      in case digits body of
           None \<Rightarrow> Inl (InvalidLiteral s)
         | Some n \<Rightarrow> Inr (if neg then - int n else int n))"

subsection \<open>Card\<close>

record card =
  rank :: string
  suit :: "string option"

definition "value" :: "card \<Rightarrow> error + int" where
  "value c =
     (if rank c = JOKER then Inr 0
      else if rank c = ''A'' then Inr 11
      else if rank c \<in> set [''K'', ''Q'', ''J''] then Inr 10
      else py_int (rank c))"

subsection \<open>Deck\<close>

record deck =
  cards :: "card list"

text \<open>
  The constructor: the nested loops over \<open>SUITS\<close> and \<open>RANKS\<close>, each iteration appending
  one card, then the two jokers.
\<close>

definition Deck_init :: deck where
  "Deck_init =
     (let cs0 = [];
          cs1 = foldl (\<lambda>cs s. foldl (\<lambda>cs r. cs @ [\<lparr>rank = r, suit = Some s\<rparr>]) cs RANKS)
                  cs0 SUITS;
          cs2 = cs1 @ [\<lparr>rank = JOKER, suit = None\<rparr>];
          cs3 = cs2 @ [\<lparr>rank = JOKER, suit = None\<rparr>]
      in \<lparr>cards = cs3\<rparr>)"

text \<open>
  \<open>shuffle\<close> permutes the list with a Mersenne Twister seeded by \<open>seed\<close>. The generator is
  not modelled: the rearrangement it performs is the parameter \<open>perm\<close>.
\<close>

definition shuffle :: "(card list \<Rightarrow> card list) \<Rightarrow> deck \<Rightarrow> deck" where
  "shuffle perm d = d\<lparr>cards := perm (cards d)\<rparr>"

text \<open>
  The slices \<open>xs[:i]\<close> and \<open>xs[i:]\<close> cut the list at the same position: \<open>i\<close> itself when
  it lies within the list, the end when it is larger, and \<open>len(xs) + i\<close> (but not before
  the start) when \<open>i\<close> is negative.
\<close>

definition slice_pos :: "nat \<Rightarrow> int \<Rightarrow> nat" where
  "slice_pos n i = (if i < 0 then nat (max 0 (int n + i)) else min (nat i) n)"

text \<open>
  \<open>draw\<close> returns the exception or the drawn cards, together with the deck afterwards
  (the deck object is not touched when the exception is raised).
\<close>

definition draw :: "deck \<Rightarrow> int \<Rightarrow> (error + card list) \<times> deck" where
  "draw d count =
     (if count > int (length (cards d)) then (Inl NotEnoughCards, d)
      else (let k = slice_pos (length (cards d)) count
            in (Inr (take k (cards d)), d\<lparr>cards := drop k (cards d)\<rparr>)))"

subsection \<open>Scoring\<close>

text \<open>
  \<open>sum\<close> over a generator: the items are produced one at a time and added to the running
  total, so the first item that raises ends the sum with its exception.
\<close>

fun sum_from :: "int \<Rightarrow> (error + int) list \<Rightarrow> error + int" where
  "sum_from acc [] = Inr acc"
| "sum_from acc (Inl e # _) = Inl e"
| "sum_from acc (Inr v # rest) = sum_from (acc + v) rest"

definition score_hand :: "card list \<Rightarrow> error + int" where
  "score_hand hand = sum_from 0 (map value (filter (\<lambda>c. rank c \<noteq> JOKER) hand))"

definition hand_has_joker :: "card list \<Rightarrow> bool" where
  "hand_has_joker hand = list_ex (\<lambda>c. rank c = JOKER) hand"

subsection \<open>Player\<close>

text \<open>
  The outcome is a string in the source. The two messages without a formatted number are
  kept as text; the three built by an f-string keep the numbers that are formatted into
  them:
  \<^item> \<open>JokerWin w\<close> is \<open>f"Joker! Wins ${w:.2f} (3x bet)."\<close>,
  \<^item> \<open>ScoreWin t w\<close> is \<open>f"Win! Score {t} pays ${w:.2f} (2x bet)."\<close>,
  \<^item> \<open>Lose t\<close> is \<open>f"Lose. Score {t} below 32."\<close>.
\<close>

datatype outcome_msg =
    Text string
  | JokerWin rat
  | ScoreWin int rat
  | Lose int

record player =
  name :: string
  bankroll :: rat
  hand :: "card list"
  ante_paid :: rat
  bet :: rat
  outcome :: outcome_msg
  payout :: rat

definition reset_round :: "player \<Rightarrow> player" where
  "reset_round p = p\<lparr>hand := [], ante_paid := 0, bet := 0, outcome := Text [], payout := 0\<rparr>"

definition pay :: "player \<Rightarrow> rat \<Rightarrow> error + player" where
  "pay p amount =
     (if amount > bankroll p then Inl (CannotCover (name p) amount)
      else Inr (p\<lparr>bankroll := bankroll p - amount\<rparr>))"

definition credit :: "player \<Rightarrow> rat \<Rightarrow> player" where
  "credit p amount = p\<lparr>bankroll := bankroll p + amount\<rparr>"

subsection \<open>The bet prompt\<close>

text \<open>
  One line of console input, as \<open>prompt_bet\<close> sees it after \<open>strip()\<close> and \<open>float()\<close>:
  empty, not a number, or a number. The console is the list of the lines still to be
  read; \<open>input()\<close> on an exhausted console raises \<open>EOFError\<close>. The prompt returns the bet
  and the lines it has not read.
\<close>

datatype input_line = Blank | NotANumber | Number rat

fun prompt_bet :: "player \<Rightarrow> rat \<Rightarrow> input_line list \<Rightarrow> error + (rat \<times> input_line list)" where
  "prompt_bet p max_bet [] = Inl EOFError"
| "prompt_bet p max_bet (Blank # rest) = Inr (0, rest)"
| "prompt_bet p max_bet (NotANumber # rest) = prompt_bet p max_bet rest"
| "prompt_bet p max_bet (Number v # rest) =
     (if v < 0 then prompt_bet p max_bet rest
      else if v > max_bet then prompt_bet p max_bet rest
      else if v > bankroll p then prompt_bet p max_bet rest
      else Inr (v, rest))"

subsection \<open>The round\<close>

text \<open>The first loop of \<open>play_round\<close>: every player is reset and dealt four cards.\<close>

fun deal :: "deck \<Rightarrow> player list \<Rightarrow> error + (player list \<times> deck)" where
  "deal d [] = Inr ([], d)"
| "deal d (p # ps) =
     (case draw d 4 of
        (Inl e, _) \<Rightarrow> Inl e
      | (Inr h, d') \<Rightarrow>
          (case deal d' ps of
             Inl e \<Rightarrow> Inl e
           | Inr (ps', d'') \<Rightarrow> Inr ((reset_round p)\<lparr>hand := h\<rparr> # ps', d'')))"

text \<open>The body of the second loop, for one player.\<close>

definition turn ::
  "rat \<Rightarrow> rat \<Rightarrow> player \<Rightarrow> input_line list \<Rightarrow> error + (player \<times> input_line list)" where
  "turn max_bet ante p inp =
     (if bankroll p < ante then
        Inr (p\<lparr>outcome := Text ''Cannot cover ante; skipped.''\<rparr>, inp)
      else
        (case pay p ante of
           Inl e \<Rightarrow> Inl e
         | Inr p1 \<Rightarrow>
             (let p2 = p1\<lparr>ante_paid := ante\<rparr> in
              case hand p2 of
                [] \<Rightarrow> Inl IndexError
              | first_card # _ \<Rightarrow>
                  (case prompt_bet p2 max_bet inp of
                     Inl e \<Rightarrow> Inl e
                   | Inr (v, inp') \<Rightarrow>
                       (let p3 = p2\<lparr>bet := v\<rparr> in
                        if bet p3 = 0 then
                          Inr (p3\<lparr>outcome := Text ''No bet placed; round ended.''\<rparr>, inp')
                        else
                          (case pay p3 (bet p3) of
                             Inl e \<Rightarrow> Inl e
                           | Inr p4 \<Rightarrow>
                               (if hand_has_joker (hand p4) then
                                  (let win_amount = bet p4 * 3;
                                       p5 = credit p4 win_amount;
                                       p6 = p5\<lparr>payout := win_amount\<rparr>
                                   in Inr (p6\<lparr>outcome := JokerWin win_amount\<rparr>, inp'))
                                else
                                  (case score_hand (hand p4) of
                                     Inl e \<Rightarrow> Inl e
                                   | Inr total' \<Rightarrow>
                                       (if total' \<ge> 32 then
                                          (let win_amount = bet p4 * 2;
                                               p5 = credit p4 win_amount;
                                               p6 = p5\<lparr>payout := win_amount\<rparr>
                                           in Inr (p6\<lparr>outcome := ScoreWin total' win_amount\<rparr>,
                                                   inp'))
                                        else
                                          Inr (p4\<lparr>outcome := Lose total'\<rparr>, inp'))))))))))"

text \<open>The second loop: the players take their turns in list order.\<close>

fun turns ::
  "rat \<Rightarrow> rat \<Rightarrow> player list \<Rightarrow> input_line list \<Rightarrow> error + (player list \<times> input_line list)" where
  "turns max_bet ante [] inp = Inr ([], inp)"
| "turns max_bet ante (p # ps) inp =
     (case turn max_bet ante p inp of
        Inl e \<Rightarrow> Inl e
      | Inr (p', inp') \<Rightarrow>
          (case turns max_bet ante ps inp' of
             Inl e \<Rightarrow> Inl e
           | Inr (ps', inp'') \<Rightarrow> Inr (p' # ps', inp'')))"

text \<open>
  \<open>play_round\<close>: \<open>perm\<close> is the rearrangement that \<open>shuffle(seed)\<close> performs, \<open>inp\<close> the
  console. The result is the players after the round and the console lines left over.
\<close>

definition play_round ::
  "(card list \<Rightarrow> card list) \<Rightarrow> player list \<Rightarrow> rat \<Rightarrow> rat \<Rightarrow> input_line list
     \<Rightarrow> error + (player list \<times> input_line list)" where
  "play_round perm players max_bet ante inp =
     (let deck = shuffle perm Deck_init in
      case deal deck players of
        Inl e \<Rightarrow> Inl e
      | Inr (dealt, _) \<Rightarrow> turns max_bet ante dealt inp)"

subsection \<open>The specification's wording of two scoring rules\<close>

text \<open>
  The value table as the specification words it: 11 for an ace, 10 for a jack, queen or
  king, the number itself for 2 to 10; a joker (and anything else) counts 0.
\<close>

definition spec_value :: "string \<Rightarrow> int" where
  "spec_value r =
     (case map_of [(''A'', 11), (''J'', 10), (''Q'', 10), (''K'', 10),
                   (''2'', 2), (''3'', 3), (''4'', 4), (''5'', 5), (''6'', 6),
                   (''7'', 7), (''8'', 8), (''9'', 9), (''10'', 10)] r of
        Some v \<Rightarrow> v
      | None \<Rightarrow> 0)"


subsection \<open>A sample round\<close>

text \<open>The constructor \<open>Player(name=n, bankroll=b)\<close> with the defaults of the dataclass.\<close>

definition Player :: "string \<Rightarrow> rat \<Rightarrow> player" where
  "Player n b = \<lparr>name = n, bankroll = b, hand = [], ante_paid = 0, bet = 0,
                 outcome = Text [], payout = 0\<rparr>"

text \<open>
  Five players at a maximum bet of 50 and an ante of 5, the shuffle being the reversal of
  the deck. The console holds what the four players who can pay the ante type: 10; then a
  word, 60 (too much) and 20; then 7; then an empty line.
\<close>

definition example_players :: "player list" where
  "example_players =
     [Player ''Ann'' 200, Player ''Bob'' 200, Player ''Cy'' 200, Player ''Di'' 200,
      Player ''Ed'' 3]"

definition example_console :: "input_line list" where
  "example_console = [Number 10, NotANumber, Number 60, Number 20, Number 7, Blank]"

definition example_result :: "player list" where
  "example_result =
     [\<lparr>name = ''Ann'', bankroll = 215, hand = take 4 (rev (cards Deck_init)),
       ante_paid = 5, bet = 10, outcome = JokerWin 30, payout = 30\<rparr>,
      \<lparr>name = ''Bob'', bankroll = 215, hand = take 4 (drop 4 (rev (cards Deck_init))),
       ante_paid = 5, bet = 20, outcome = ScoreWin 37 40, payout = 40\<rparr>,
      \<lparr>name = ''Cy'', bankroll = 188, hand = take 4 (drop 8 (rev (cards Deck_init))),
       ante_paid = 5, bet = 7, outcome = Lose 22, payout = 0\<rparr>,
      \<lparr>name = ''Di'', bankroll = 195, hand = take 4 (drop 12 (rev (cards Deck_init))),
       ante_paid = 5, bet = 0, outcome = Text ''No bet placed; round ended.'', payout = 0\<rparr>,
      \<lparr>name = ''Ed'', bankroll = 3, hand = take 4 (drop 16 (rev (cards Deck_init))),
       ante_paid = 0, bet = 0, outcome = Text ''Cannot cover ante; skipped.'', payout = 0\<rparr>]"

section \<open>Scoring\<close>

lemma RANKS_eq:
  "RANKS = [''A''] @ [''2'', ''3'', ''4'', ''5''] @ [''6'', ''7'', ''8'', ''9'', ''10'']
             @ [''J'', ''Q'', ''K'']"
  by code_simp

lemma py_int_numeric:
  "py_int ''2'' = Inr 2" "py_int ''3'' = Inr 3" "py_int ''4'' = Inr 4"
  "py_int ''5'' = Inr 5" "py_int ''6'' = Inr 6" "py_int ''7'' = Inr 7"
  "py_int ''8'' = Inr 8" "py_int ''9'' = Inr 9" "py_int ''10'' = Inr 10"
  by code_simp+


lemma value_rank:
  assumes "rank c \<in> set RANKS \<or> rank c = JOKER"
  shows "value c = Inr (spec_value (rank c))"
  using assms unfolding RANKS_eq
  by (auto simp: value_def JOKER_def spec_value_def py_int_numeric)

lemma sum_from_Inr: "sum_from acc (map Inr vs) = Inr (acc + sum_list vs)"
  by (induction vs arbitrary: acc) simp_all


text \<open>
  Claim C8. \<open>score_hand\<close> returns a number, raising nothing, on a hand of any length whose
  cards carry ranks of the deck (one of \<open>RANKS\<close>, or the joker marker): every such card
  has the value of the table (11 for an ace, 10 for jack, queen and king, the number for
  2 to 10), and the score is the sum of these values over the cards that are not jokers.
\<close>

theorem score_hand_sums_values:
  assumes "\<forall>c \<in> set cs. rank c \<in> set RANKS \<or> rank c = JOKER"
  shows "(\<forall>c \<in> set cs. value c = Inr (spec_value (rank c))) \<and>
         score_hand cs =
           Inr (sum_list (map (\<lambda>c. spec_value (rank c)) (filter (\<lambda>c. rank c \<noteq> JOKER) cs)))"
proof -
  have v: "\<forall>c \<in> set cs. value c = Inr (spec_value (rank c))"
    using assms by (simp add: value_rank)
  then have "map value (filter (\<lambda>c. rank c \<noteq> JOKER) cs) =
             map Inr (map (\<lambda>c. spec_value (rank c)) (filter (\<lambda>c. rank c \<noteq> JOKER) cs))"
    by simp
  then show ?thesis
    using v by (simp add: score_hand_def sum_from_Inr del: map_map)
qed

text \<open>An ace, a joker, a ten, a king and a seven: 11 + 10 + 10 + 7 = 38.\<close>

theorem score_hand_sums_values_witness:
  "list_all (\<lambda>c. rank c \<in> set RANKS \<or> rank c = JOKER)
     [\<lparr>rank = ''A'', suit = Some (SUITS ! 0)\<rparr>, \<lparr>rank = JOKER, suit = None\<rparr>,
       \<lparr>rank = ''10'', suit = Some (SUITS ! 1)\<rparr>, \<lparr>rank = ''K'', suit = Some (SUITS ! 2)\<rparr>,
       \<lparr>rank = ''7'', suit = Some (SUITS ! 3)\<rparr>] \<and>
   score_hand [\<lparr>rank = ''A'', suit = Some (SUITS ! 0)\<rparr>, \<lparr>rank = JOKER, suit = None\<rparr>,
       \<lparr>rank = ''10'', suit = Some (SUITS ! 1)\<rparr>, \<lparr>rank = ''K'', suit = Some (SUITS ! 2)\<rparr>,
       \<lparr>rank = ''7'', suit = Some (SUITS ! 3)\<rparr>] = Inr 38"
proof -
  let ?h = "[\<lparr>rank = ''A'', suit = Some (SUITS ! 0)\<rparr>, \<lparr>rank = JOKER, suit = None\<rparr>,
       \<lparr>rank = ''10'', suit = Some (SUITS ! 1)\<rparr>, \<lparr>rank = ''K'', suit = Some (SUITS ! 2)\<rparr>,
       \<lparr>rank = ''7'', suit = Some (SUITS ! 3)\<rparr>]"
  have h: "\<forall>c \<in> set ?h. rank c \<in> set RANKS \<or> rank c = JOKER"
    by (simp add: RANKS_eq)
  have s: "sum_list (map (\<lambda>c. spec_value (rank c)) (filter (\<lambda>c. rank c \<noteq> JOKER) ?h)) = 38"
    by (simp add: JOKER_def spec_value_def)
  show ?thesis
    using h score_hand_sums_values [OF h] s by (simp add: list_all_iff)
qed


section \<open>The deck\<close>

text \<open>
  Claim C5, as the code has it. A fresh deck holds 54 cards in a fixed order: suit by
  suit in the order of \<open>SUITS\<close>, within a suit the 13 ranks in the order of \<open>RANKS\<close>, then
  two jokers. The 52 suited cards are pairwise distinct; the two jokers are equal to each
  other, so the deck holds 53 different cards.
\<close>

theorem deck_init_cards:
  "length (cards Deck_init) = 54 \<and>
   cards Deck_init =
     concat (map (\<lambda>s. map (\<lambda>r. \<lparr>rank = r, suit = Some s\<rparr>) RANKS) SUITS)
       @ [\<lparr>rank = JOKER, suit = None\<rparr>, \<lparr>rank = JOKER, suit = None\<rparr>] \<and>
   length SUITS = 4 \<and> distinct SUITS \<and> length RANKS = 13 \<and> distinct RANKS \<and>
   distinct (take 52 (cards Deck_init)) \<and>
   cards Deck_init ! 52 = cards Deck_init ! 53 \<and>
   card (set (cards Deck_init)) = 53"
proof -
  have "length (cards Deck_init) = 54"
    by code_simp
  moreover have "cards Deck_init =
     concat (map (\<lambda>s. map (\<lambda>r. \<lparr>rank = r, suit = Some s\<rparr>) RANKS) SUITS)
       @ [\<lparr>rank = JOKER, suit = None\<rparr>, \<lparr>rank = JOKER, suit = None\<rparr>]"
    by code_simp
  moreover have "length SUITS = 4" "distinct SUITS" "length RANKS = 13" "distinct RANKS"
    by code_simp+
  moreover have "distinct (take 52 (cards Deck_init))"
    by code_simp
  moreover have "cards Deck_init ! 52 = cards Deck_init ! 53"
    by code_simp
  moreover have "card (set (cards Deck_init)) = 53"
    by code_simp
  ultimately show ?thesis by simp
qed

text \<open>The 54 cards of a fresh deck are not pairwise distinct.\<close>

theorem deck_init_distinct_counterexample:
  "\<not> (length (cards Deck_init) = 54 \<and> distinct (cards Deck_init))"
proof -
  have "\<not> distinct (cards Deck_init)"
    by code_simp
  then show ?thesis by simp
qed

lemma slice_pos_nonneg: "0 \<le> count \<Longrightarrow> count \<le> int n \<Longrightarrow> slice_pos n count = nat count"
  by (simp add: slice_pos_def)

lemma draw_fails_iff:
  "(\<exists>e. fst (draw d count) = Inl e) \<longleftrightarrow> count > int (length (cards d))"
  by (simp add: draw_def Let_def)

lemma draw_error_iff:
  "draw d count = (Inl NotEnoughCards, d) \<longleftrightarrow> count > int (length (cards d))"
  by (simp add: draw_def Let_def)

lemma draw_nonneg:
  "0 \<le> count \<Longrightarrow> count \<le> int (length (cards d)) \<Longrightarrow>
   draw d count = (Inr (take (nat count) (cards d)), d\<lparr>cards := drop (nat count) (cards d)\<rparr>)"
  by (simp add: draw_def Let_def slice_pos_nonneg)

lemma distinct_seen_take_drop:
  assumes "distinct (seen @ cs)"
  shows "distinct (take k cs)" "set (take k cs) \<inter> set seen = {}"
    "set (take k cs) \<inter> set (drop k cs) = {}" "distinct ((seen @ take k cs) @ drop k cs)"
proof -
  have "distinct (seen @ take k cs @ drop k cs)"
    using assms by simp
  then show "distinct (take k cs)" "set (take k cs) \<inter> set seen = {}"
    "set (take k cs) \<inter> set (drop k cs) = {}"
    unfolding distinct_append by (auto dest: in_set_takeD)
  show "distinct ((seen @ take k cs) @ drop k cs)"
    using assms by simp
qed

text \<open>
  Claim C6, as the code has it. \<open>draw(count)\<close> raises exactly when \<open>count\<close> exceeds the
  number of cards left, the exception is the "not enough cards" one and the deck is then
  unchanged. For \<open>0 \<le> count \<le> len\<close> it returns the first \<open>count\<close> cards in order and leaves
  the rest as the deck, so that drawn cards and new deck together are the old deck. If the
  cards drawn so far (\<open>seen\<close>) and the deck are pairwise distinct, the drawn cards are
  pairwise distinct, none of them was drawn before, none of them stays in the deck, and
  the same holds again after the draw.
\<close>

theorem draw_first_cards:
  "((\<exists>e. fst (draw d count) = Inl e) \<longleftrightarrow> count > int (length (cards d))) \<and>
   (draw d count = (Inl NotEnoughCards, d) \<longleftrightarrow> count > int (length (cards d))) \<and>
   (0 \<le> count \<and> count \<le> int (length (cards d)) \<longrightarrow>
      draw d count =
        (Inr (take (nat count) (cards d)), d\<lparr>cards := drop (nat count) (cards d)\<rparr>) \<and>
      length (take (nat count) (cards d)) = nat count \<and>
      take (nat count) (cards d) @ drop (nat count) (cards d) = cards d \<and>
      (distinct (seen @ cards d) \<longrightarrow>
         distinct (take (nat count) (cards d)) \<and>
         set (take (nat count) (cards d)) \<inter> set seen = {} \<and>
         set (take (nat count) (cards d)) \<inter> set (drop (nat count) (cards d)) = {} \<and>
         distinct ((seen @ take (nat count) (cards d)) @ drop (nat count) (cards d))))"
proof (intro conjI impI)
  show "(\<exists>e. fst (draw d count) = Inl e) \<longleftrightarrow> count > int (length (cards d))"
    by (rule draw_fails_iff)
  show "draw d count = (Inl NotEnoughCards, d) \<longleftrightarrow> count > int (length (cards d))"
    by (rule draw_error_iff)
next
  assume r: "0 \<le> count \<and> count \<le> int (length (cards d))"
  then show "draw d count =
      (Inr (take (nat count) (cards d)), d\<lparr>cards := drop (nat count) (cards d)\<rparr>)"
    by (simp add: draw_nonneg)
  show "length (take (nat count) (cards d)) = nat count"
    using r by (simp add: min_absorb2 nat_le_iff)
  show "take (nat count) (cards d) @ drop (nat count) (cards d) = cards d"
    by simp
next
  assume "distinct (seen @ cards d)"
  note D = distinct_seen_take_drop [OF this, of "nat count"]
  show "distinct (take (nat count) (cards d))"
    by (rule D)
  show "set (take (nat count) (cards d)) \<inter> set seen = {}"
    by (rule D)
  show "set (take (nat count) (cards d)) \<inter> set (drop (nat count) (cards d)) = {}"
    by (rule D)
  show "distinct ((seen @ take (nat count) (cards d)) @ drop (nat count) (cards d))"
    by (rule D)
qed

text \<open>
  A deck of the three, four and five of spades, the two of spades drawn before: drawing
  two cards gives the three and the four; asking for five cards raises.
\<close>

theorem draw_first_cards_witness:
  "(0::int) \<le> 2 \<and>
   2 \<le> int (length (cards \<lparr>cards = [\<lparr>rank = ''3'', suit = Some (SUITS ! 0)\<rparr>,
        \<lparr>rank = ''4'', suit = Some (SUITS ! 0)\<rparr>, \<lparr>rank = ''5'', suit = Some (SUITS ! 0)\<rparr>]\<rparr>)) \<and>
   distinct ([\<lparr>rank = ''2'', suit = Some (SUITS ! 0)\<rparr>] @
      cards \<lparr>cards = [\<lparr>rank = ''3'', suit = Some (SUITS ! 0)\<rparr>,
        \<lparr>rank = ''4'', suit = Some (SUITS ! 0)\<rparr>, \<lparr>rank = ''5'', suit = Some (SUITS ! 0)\<rparr>]\<rparr>) \<and>
   draw \<lparr>cards = [\<lparr>rank = ''3'', suit = Some (SUITS ! 0)\<rparr>,
        \<lparr>rank = ''4'', suit = Some (SUITS ! 0)\<rparr>, \<lparr>rank = ''5'', suit = Some (SUITS ! 0)\<rparr>]\<rparr> 2 =
     (Inr [\<lparr>rank = ''3'', suit = Some (SUITS ! 0)\<rparr>, \<lparr>rank = ''4'', suit = Some (SUITS ! 0)\<rparr>],
      \<lparr>cards = [\<lparr>rank = ''5'', suit = Some (SUITS ! 0)\<rparr>]\<rparr>) \<and>
   (5::int) > int (length (cards \<lparr>cards = [\<lparr>rank = ''3'', suit = Some (SUITS ! 0)\<rparr>,
        \<lparr>rank = ''4'', suit = Some (SUITS ! 0)\<rparr>, \<lparr>rank = ''5'', suit = Some (SUITS ! 0)\<rparr>]\<rparr>)) \<and>
   draw \<lparr>cards = [\<lparr>rank = ''3'', suit = Some (SUITS ! 0)\<rparr>,
        \<lparr>rank = ''4'', suit = Some (SUITS ! 0)\<rparr>, \<lparr>rank = ''5'', suit = Some (SUITS ! 0)\<rparr>]\<rparr> 5 =
     (Inl NotEnoughCards,
      \<lparr>cards = [\<lparr>rank = ''3'', suit = Some (SUITS ! 0)\<rparr>,
        \<lparr>rank = ''4'', suit = Some (SUITS ! 0)\<rparr>, \<lparr>rank = ''5'', suit = Some (SUITS ! 0)\<rparr>]\<rparr>)"
proof -
  let ?d = "\<lparr>cards = [\<lparr>rank = ''3'', suit = Some (SUITS ! 0)\<rparr>,
        \<lparr>rank = ''4'', suit = Some (SUITS ! 0)\<rparr>, \<lparr>rank = ''5'', suit = Some (SUITS ! 0)\<rparr>]\<rparr>"
  have two: "nat 2 = Suc (Suc 0)"
    by simp
  show ?thesis
    using draw_first_cards [of ?d 2 "[\<lparr>rank = ''2'', suit = Some (SUITS ! 0)\<rparr>]"]
      draw_first_cards [of ?d 5 "[]"]
    by (simp add: two)
qed

text \<open>
  On a fresh deck, \<open>draw(54)\<close> returns all 54 cards, among them the two equal jokers; and
  \<open>draw(-1)\<close> does not raise and returns 53 cards.
\<close>

theorem draw_first_cards_counterexample:
  "\<not> (54 > int (length (cards Deck_init))) \<and>
   fst (draw Deck_init 54) = Inr (cards Deck_init) \<and>
   \<not> distinct (cards Deck_init) \<and>
   \<not> (- 1 > int (length (cards Deck_init))) \<and>
   fst (draw Deck_init (- 1)) = Inr (take 53 (cards Deck_init)) \<and>
   length (take 53 (cards Deck_init)) = 53"
  by code_simp

text \<open>
  Claim C7, as the code has it. For a deck in any state and \<open>n, m \<ge> 0\<close> with \<open>n + m\<close> at
  most the number of cards left, \<open>draw(n)\<close> followed by \<open>draw(m)\<close> returns two lists whose
  concatenation is what a single \<open>draw(n + m)\<close> returns from the same state, and both ways
  leave the same deck. The two lists have no card in common when the cards of the deck
  are pairwise distinct.
\<close>

theorem draw_twice:
  assumes "0 \<le> n" "0 \<le> m" "n + m \<le> int (length (cards d))"
  shows "\<exists>xs d1 ys d2.
           draw d n = (Inr xs, d1) \<and> draw d1 m = (Inr ys, d2) \<and>
           draw d (n + m) = (Inr (xs @ ys), d2) \<and>
           length xs = nat n \<and> length ys = nat m \<and>
           (distinct (cards d) \<longrightarrow> set xs \<inter> set ys = {})"
proof -
  let ?cs = "cards d"
  let ?d1 = "d\<lparr>cards := drop (nat n) ?cs\<rparr>"
  let ?d2 = "?d1\<lparr>cards := drop (nat m) (cards ?d1)\<rparr>"
  let ?xs = "take (nat n) ?cs"
  let ?ys = "take (nat m) (cards ?d1)"
  have 1: "draw d n = (Inr ?xs, ?d1)"
    using assms by (simp add: draw_nonneg)
  have m: "m \<le> int (length (cards ?d1))"
    using assms by simp
  have 2: "draw ?d1 m = (Inr ?ys, ?d2)"
    using assms(2) m by (rule draw_nonneg)
  have nm: "nat (n + m) = nat n + nat m"
    using assms by (simp add: nat_add_distrib)
  have "draw d (n + m) = (Inr (take (nat (n + m)) ?cs), d\<lparr>cards := drop (nat (n + m)) ?cs\<rparr>)"
    using assms by (simp add: draw_nonneg)
  moreover have "take (nat n + nat m) ?cs = ?xs @ ?ys"
    by (simp add: take_add)
  moreover have "d\<lparr>cards := drop (nat n + nat m) ?cs\<rparr> = ?d2"
    by (simp add: add.commute)
  ultimately have 3: "draw d (n + m) = (Inr (?xs @ ?ys), ?d2)"
    unfolding nm by simp
  have len: "length ?xs = nat n" "length ?ys = nat m"
    using assms by (simp_all add: min_absorb2 nat_le_iff)
  have dis: "distinct ?cs \<longrightarrow> set ?xs \<inter> set ?ys = {}"
  proof
    assume "distinct ?cs"
    then have "distinct ([] @ ?cs)"
      by simp
    then have "set ?xs \<inter> set (drop (nat n) ?cs) = {}"
      by (rule distinct_seen_take_drop)
    moreover have "set ?ys \<subseteq> set (drop (nat n) ?cs)"
      by (simp add: set_take_subset)
    ultimately show "set ?xs \<inter> set ?ys = {}"
      by blast
  qed
  from 1 2 3 len dis show ?thesis
    by blast
qed

text \<open>
  Four distinct cards: one card, then two cards, against three cards at once.
\<close>

theorem draw_twice_witness:
  "(0::int) \<le> 1 \<and> (0::int) \<le> 2 \<and>
   1 + 2 \<le> int (length (cards \<lparr>cards = [\<lparr>rank = ''3'', suit = Some (SUITS ! 0)\<rparr>,
        \<lparr>rank = ''4'', suit = Some (SUITS ! 0)\<rparr>, \<lparr>rank = ''5'', suit = Some (SUITS ! 0)\<rparr>,
        \<lparr>rank = JOKER, suit = None\<rparr>]\<rparr>)) \<and>
   (\<exists>xs d1 ys d2.
      draw \<lparr>cards = [\<lparr>rank = ''3'', suit = Some (SUITS ! 0)\<rparr>,
        \<lparr>rank = ''4'', suit = Some (SUITS ! 0)\<rparr>, \<lparr>rank = ''5'', suit = Some (SUITS ! 0)\<rparr>,
        \<lparr>rank = JOKER, suit = None\<rparr>]\<rparr> 1 = (Inr xs, d1) \<and>
      draw d1 2 = (Inr ys, d2) \<and>
      draw \<lparr>cards = [\<lparr>rank = ''3'', suit = Some (SUITS ! 0)\<rparr>,
        \<lparr>rank = ''4'', suit = Some (SUITS ! 0)\<rparr>, \<lparr>rank = ''5'', suit = Some (SUITS ! 0)\<rparr>,
        \<lparr>rank = JOKER, suit = None\<rparr>]\<rparr> (1 + 2) = (Inr (xs @ ys), d2) \<and>
      length xs = nat 1 \<and> length ys = nat 2 \<and> set xs \<inter> set ys = {})"
proof -
  let ?d = "\<lparr>cards = [\<lparr>rank = ''3'', suit = Some (SUITS ! 0)\<rparr>,
        \<lparr>rank = ''4'', suit = Some (SUITS ! 0)\<rparr>, \<lparr>rank = ''5'', suit = Some (SUITS ! 0)\<rparr>,
        \<lparr>rank = JOKER, suit = None\<rparr>]\<rparr>"
  have h: "(0::int) \<le> 1" "(0::int) \<le> 2" "1 + 2 \<le> int (length (cards ?d))"
    by simp_all
  have dist: "distinct (cards ?d)"
    by (simp add: JOKER_def)
  show ?thesis
    using h dist draw_twice [OF h] by simp
qed

text \<open>
  On a fresh deck, \<open>draw(53)\<close> and then \<open>draw(1)\<close> both return a joker. And \<open>draw(-1)\<close>
  followed by \<open>draw(1)\<close> returns the whole deck, where \<open>draw(-1 + 1)\<close> returns nothing.
\<close>

theorem draw_twice_counterexample:
  "53 + 1 \<le> int (length (cards Deck_init)) \<and>
   fst (draw Deck_init 53) = Inr (take 53 (cards Deck_init)) \<and>
   fst (draw (snd (draw Deck_init 53)) 1) = Inr (drop 53 (cards Deck_init)) \<and>
   set (take 53 (cards Deck_init)) \<inter> set (drop 53 (cards Deck_init)) \<noteq> {} \<and>
   - 1 + 1 \<le> int (length (cards Deck_init)) \<and>
   fst (draw Deck_init (- 1)) = Inr (take 53 (cards Deck_init)) \<and>
   fst (draw (snd (draw Deck_init (- 1))) 1) = Inr (drop 53 (cards Deck_init)) \<and>
   fst (draw Deck_init (- 1 + 1)) = Inr [] \<and>
   take 53 (cards Deck_init) @ drop 53 (cards Deck_init) \<noteq> []"
  by code_simp

section \<open>The round\<close>

lemma draw_four:
  assumes "draw d 4 = (Inr h, d')"
  shows "4 \<le> length (cards d)" "h = take 4 (cards d)" "cards d' = drop 4 (cards d)"
  using assms by (auto simp: draw_def Let_def slice_pos_def split: if_splits)

lemma deal_Cons:
  assumes "deal d (p # ps) = Inr (qs, d')"
  obtains h d1 qs' where "draw d 4 = (Inr h, d1)" "deal d1 ps = Inr (qs', d')"
    "qs = (reset_round p)\<lparr>hand := h\<rparr> # qs'"
  using assms by (auto split: prod.splits sum.splits)

lemma deal_nth:
  assumes "deal d ps = Inr (qs, d')"
  shows "length qs = length ps \<and> 4 * length ps \<le> length (cards d) \<and>
         (\<forall>i < length ps. qs ! i = (reset_round (ps ! i))\<lparr>hand := take 4 (drop (4 * i) (cards d))\<rparr>)"
  using assms
proof (induction ps arbitrary: d qs)
  case Nil
  then show ?case by simp
next
  case (Cons p ps)
  from Cons.prems obtain h d1 qs' where
    dr: "draw d 4 = (Inr h, d1)" and de: "deal d1 ps = Inr (qs', d')" and
    qs: "qs = (reset_round p)\<lparr>hand := h\<rparr> # qs'"
    by (rule deal_Cons)
  note d4 = draw_four [OF dr]
  from Cons.IH [OF de] have
    len: "length qs' = length ps" and
    enough: "4 * length ps \<le> length (cards d1)" and
    nth: "\<And>j. j < length ps \<Longrightarrow>
            qs' ! j = (reset_round (ps ! j))\<lparr>hand := take 4 (drop (4 * j) (cards d1))\<rparr>"
    by simp_all
  have "4 * length (p # ps) \<le> length (cards d)"
    using enough d4 by simp
  moreover have "qs ! i = (reset_round ((p # ps) ! i))\<lparr>hand := take 4 (drop (4 * i) (cards d))\<rparr>"
    if "i < length (p # ps)" for i
  proof (cases i)
    case 0
    then show ?thesis using qs d4 by simp
  next
    case (Suc j)
    then have "j < length ps" using that by simp
    then show ?thesis using Suc qs nth [of j] d4 by (simp add: add.commute)
  qed
  ultimately show ?case using len qs by simp
qed

lemma turns_Cons:
  assumes "turns mb a (p # ps) inp = Inr (qs, inp')"
  obtains p' inp1 qs' where "turn mb a p inp = Inr (p', inp1)"
    "turns mb a ps inp1 = Inr (qs', inp')" "qs = p' # qs'"
  using assms by (auto split: prod.splits sum.splits)

lemma turns_nth:
  assumes "turns mb a ps inp = Inr (qs, inp')"
  shows "length qs = length ps \<and>
         (\<forall>i < length ps. \<exists>i1 i2. turn mb a (ps ! i) i1 = Inr (qs ! i, i2))"
  using assms
proof (induction ps arbitrary: inp qs)
  case Nil
  then show ?case by simp
next
  case (Cons p ps)
  from Cons.prems obtain p' inp1 qs' where
    t: "turn mb a p inp = Inr (p', inp1)" and ts: "turns mb a ps inp1 = Inr (qs', inp')" and
    qs: "qs = p' # qs'"
    by (rule turns_Cons)
  from Cons.IH [OF ts] have
    len: "length qs' = length ps" and
    nth: "\<And>j. j < length ps \<Longrightarrow> \<exists>i1 i2. turn mb a (ps ! j) i1 = Inr (qs' ! j, i2)"
    by simp_all
  have "\<exists>i1 i2. turn mb a ((p # ps) ! i) i1 = Inr (qs ! i, i2)" if "i < length (p # ps)" for i
  proof (cases i)
    case 0
    then show ?thesis using t qs by auto
  next
    case (Suc j)
    then show ?thesis using that qs nth [of j] by simp
  qed
  then show ?case using len qs by simp
qed

lemma play_round_nth:
  assumes "play_round perm ps mb a inp = Inr (ps', inp')" and "i < length ps"
  shows "length ps' = length ps"
    and "4 * length ps \<le> length (perm (cards Deck_init))"
    and "\<exists>i1 i2. turn mb a
           ((reset_round (ps ! i))\<lparr>hand := take 4 (drop (4 * i) (perm (cards Deck_init)))\<rparr>) i1
           = Inr (ps' ! i, i2)"
proof -
  from assms(1) obtain qs d' where
    de: "deal (shuffle perm Deck_init) ps = Inr (qs, d')" and
    ts: "turns mb a qs inp = Inr (ps', inp')"
    by (auto simp: play_round_def Let_def split: sum.splits prod.splits)
  have cs: "cards (shuffle perm Deck_init) = perm (cards Deck_init)"
    by (simp add: shuffle_def)
  note D = deal_nth [OF de, unfolded cs]
  note T = turns_nth [OF ts]
  show "length ps' = length ps" using D T by simp
  show "4 * length ps \<le> length (perm (cards Deck_init))" using D by simp
  have "i < length qs" using D assms(2) by simp
  with T obtain i1 i2 where "turn mb a (qs ! i) i1 = Inr (ps' ! i, i2)" by blast
  moreover have "qs ! i = (reset_round (ps ! i))\<lparr>hand := take 4 (drop (4 * i) (perm (cards Deck_init)))\<rparr>"
    using D assms(2) by simp
  ultimately show "\<exists>i1 i2. turn mb a
           ((reset_round (ps ! i))\<lparr>hand := take 4 (drop (4 * i) (perm (cards Deck_init)))\<rparr>) i1
           = Inr (ps' ! i, i2)" by auto
qed

lemma prompt_bet_range:
  "prompt_bet p mb inp = Inr (v, inp') \<Longrightarrow> 0 \<le> v \<and> (v \<noteq> 0 \<longrightarrow> v \<le> mb \<and> v \<le> bankroll p)"
  by (induction p mb inp rule: prompt_bet.induct) (auto split: if_splits)

lemma turn_cases:
  assumes "turn mb a p inp = Inr (p', inp')"
  obtains
    (skipped) "bankroll p < a" "inp' = inp"
      "p' = p\<lparr>outcome := Text ''Cannot cover ante; skipped.''\<rparr>"
  | (no_bet) "\<not> bankroll p < a" "hand p \<noteq> []"
      "prompt_bet (p\<lparr>bankroll := bankroll p - a, ante_paid := a\<rparr>) mb inp = Inr (0, inp')"
      "p' = p\<lparr>bankroll := bankroll p - a, ante_paid := a, bet := 0,
             outcome := Text ''No bet placed; round ended.''\<rparr>"
  | (joker) v where "\<not> bankroll p < a" "hand p \<noteq> []"
      "prompt_bet (p\<lparr>bankroll := bankroll p - a, ante_paid := a\<rparr>) mb inp = Inr (v, inp')"
      "0 < v" "v \<le> mb" "v \<le> bankroll p - a" "hand_has_joker (hand p)"
      "p' = p\<lparr>bankroll := bankroll p - a - v + v * 3, ante_paid := a, bet := v,
             payout := v * 3, outcome := JokerWin (v * 3)\<rparr>"
  | (win) v t where "\<not> bankroll p < a" "hand p \<noteq> []"
      "prompt_bet (p\<lparr>bankroll := bankroll p - a, ante_paid := a\<rparr>) mb inp = Inr (v, inp')"
      "0 < v" "v \<le> mb" "v \<le> bankroll p - a" "\<not> hand_has_joker (hand p)"
      "score_hand (hand p) = Inr t" "32 \<le> t"
      "p' = p\<lparr>bankroll := bankroll p - a - v + v * 2, ante_paid := a, bet := v,
             payout := v * 2, outcome := ScoreWin t (v * 2)\<rparr>"
  | (lose) v t where "\<not> bankroll p < a" "hand p \<noteq> []"
      "prompt_bet (p\<lparr>bankroll := bankroll p - a, ante_paid := a\<rparr>) mb inp = Inr (v, inp')"
      "0 < v" "v \<le> mb" "v \<le> bankroll p - a" "\<not> hand_has_joker (hand p)"
      "score_hand (hand p) = Inr t" "t < 32"
      "p' = p\<lparr>bankroll := bankroll p - a - v, ante_paid := a, bet := v,
             outcome := Lose t\<rparr>"
proof (cases "bankroll p < a")
  case True
  then have "inp' = inp \<and> p' = p\<lparr>outcome := Text ''Cannot cover ante; skipped.''\<rparr>"
    using assms by (auto simp: turn_def)
  with True show thesis
    using skipped by blast
next
  case elig: False
  let ?p2 = "p\<lparr>bankroll := bankroll p - a, ante_paid := a\<rparr>"
  have pay1: "pay p a = Inr (p\<lparr>bankroll := bankroll p - a\<rparr>)"
    using elig by (simp add: pay_def)
  obtain c cs where h: "hand p = c # cs"
    using assms elig pay1 by (cases "hand p") (simp_all add: turn_def)
  then have ne: "hand p \<noteq> []"
    by simp
  obtain v inp1 where pb: "prompt_bet ?p2 mb inp = Inr (v, inp1)"
    using assms elig pay1 h by (cases "prompt_bet ?p2 mb inp") (auto simp: turn_def)
  show thesis
  proof (cases "v = 0")
    case True
    then have "inp1 = inp' \<and>
        p' = p\<lparr>bankroll := bankroll p - a, ante_paid := a, bet := 0,
               outcome := Text ''No bet placed; round ended.''\<rparr>"
      using assms elig pay1 h pb by (auto simp: turn_def)
    with True elig ne pb show thesis
      using no_bet by blast
  next
    case nz: False
    from prompt_bet_range [OF pb] nz have v: "0 < v" "v \<le> mb" "v \<le> bankroll p - a"
      by simp_all
    have pay2: "pay (?p2\<lparr>bet := v\<rparr>) v = Inr (?p2\<lparr>bet := v, bankroll := bankroll p - a - v\<rparr>)"
      using v by (simp add: pay_def)
    show thesis
    proof (cases "hand_has_joker (hand p)")
      case True
      then have "inp1 = inp' \<and>
          p' = p\<lparr>bankroll := bankroll p - a - v + v * 3, ante_paid := a, bet := v,
                 payout := v * 3, outcome := JokerWin (v * 3)\<rparr>"
        using assms elig pay1 h pb nz pay2 by (auto simp: turn_def credit_def Let_def)
      with True elig ne pb v show thesis
        using joker by blast
    next
      case nj: False
      show thesis
      proof (cases "score_hand (hand p)")
        case (Inl e)
        then show thesis
          using assms elig pay1 h pb nz pay2 nj by (simp add: turn_def)
      next
        case (Inr t)
        show thesis
        proof (cases "32 \<le> t")
          case True
          then have "inp1 = inp' \<and>
              p' = p\<lparr>bankroll := bankroll p - a - v + v * 2, ante_paid := a, bet := v,
                     payout := v * 2, outcome := ScoreWin t (v * 2)\<rparr>"
            using assms elig pay1 h pb nz pay2 nj Inr
            by (auto simp: turn_def credit_def Let_def)
          with True elig ne pb v nj Inr show thesis
            using win by blast
        next
          case False
          then have "inp1 = inp' \<and>
              p' = p\<lparr>bankroll := bankroll p - a - v, ante_paid := a, bet := v,
                     outcome := Lose t\<rparr>"
            using assms elig pay1 h pb nz pay2 nj Inr
            by (auto simp: turn_def credit_def Let_def)
          moreover have "t < 32"
            using False by simp
          ultimately show thesis
            using elig ne pb v nj Inr lose by blast
        qed
      qed
    qed
  qed
qed

lemma reset_fields:
  "bankroll (reset_round p) = bankroll p"
  "name (reset_round p) = name p"
  "hand (reset_round p) = []"
  "ante_paid (reset_round p) = 0"
  "bet (reset_round p) = 0"
  "payout (reset_round p) = 0"
  "outcome (reset_round p) = Text []"
  by (simp_all add: reset_round_def)

lemma example_round:
  "play_round rev example_players 50 5 example_console = Inr (example_result, [])"
  by code_simp






lemma turn_skip:
  "bankroll p < a \<Longrightarrow>
   turn mb a p inp = Inr (p\<lparr>outcome := Text ''Cannot cover ante; skipped.''\<rparr>, inp)"
  by (simp add: turn_def)

lemma turn_no_bet:
  assumes "\<not> bankroll p < a" and "hand p \<noteq> []"
    and "prompt_bet (p\<lparr>bankroll := bankroll p - a, ante_paid := a\<rparr>) mb inp = Inr (0, inp')"
  shows "turn mb a p inp =
           Inr (p\<lparr>bankroll := bankroll p - a, ante_paid := a, bet := 0,
                  outcome := Text ''No bet placed; round ended.''\<rparr>, inp')"
proof -
  obtain c cs where "hand p = c # cs"
    using assms(2) by (cases "hand p") simp_all
  then show ?thesis
    using assms(1,3) by (simp add: turn_def pay_def)
qed

lemma dealt_hand_length:
  assumes "4 * n \<le> length xs" and "i < n"
  shows "length (take 4 (drop (4 * i) xs)) = 4"
  using assms by simp

text \<open>
  Claim C3. A player whose bankroll is below the ante is marked as skipped and nothing is
  debited: bankroll as before, \<open>ante_paid\<close>, \<open>bet\<close> and \<open>payout\<close> at their reset value 0. The
  four cards dealt to the player stay in the hand. The round goes on with the next player:
  the turn raises nothing and reads no console line, so the remaining players are
  processed as if the skipped one had not been there. (The outcome text in the code is
  \<open>Cannot cover ante; skipped.\<close>)
\<close>

theorem round_skipped:
  assumes "play_round perm ps max_bet ante inp = Inr (ps', inp')" and "i < length ps"
    and "bankroll (ps ! i) < ante"
  shows "outcome (ps' ! i) = Text ''Cannot cover ante; skipped.'' \<and>
         bankroll (ps' ! i) = bankroll (ps ! i) \<and>
         ante_paid (ps' ! i) = 0 \<and> bet (ps' ! i) = 0 \<and> payout (ps' ! i) = 0 \<and>
         hand (ps' ! i) = take 4 (drop (4 * i) (perm (cards Deck_init))) \<and>
         length (hand (ps' ! i)) = 4 \<and>
         (\<forall>q rest con. bankroll q < ante \<longrightarrow>
            turns max_bet ante (q # rest) con =
              (case turns max_bet ante rest con of
                 Inl e \<Rightarrow> Inl e
               | Inr (qs, con') \<Rightarrow>
                   Inr (q\<lparr>outcome := Text ''Cannot cover ante; skipped.''\<rparr> # qs, con')))"
proof -
  let ?h = "take 4 (drop (4 * i) (perm (cards Deck_init)))"
  let ?q = "(reset_round (ps ! i))\<lparr>hand := ?h\<rparr>"
  note R = play_round_nth [OF assms(1,2)]
  from R(3) obtain i1 i2 where t: "turn max_bet ante ?q i1 = Inr (ps' ! i, i2)"
    by blast
  have len: "length ?h = 4"
    using R(2) assms(2) by (rule dealt_hand_length)
  from t have "outcome (ps' ! i) = Text ''Cannot cover ante; skipped.'' \<and>
         bankroll (ps' ! i) = bankroll (ps ! i) \<and>
         ante_paid (ps' ! i) = 0 \<and> bet (ps' ! i) = 0 \<and> payout (ps' ! i) = 0 \<and>
         hand (ps' ! i) = ?h"
    using assms(3) by (cases rule: turn_cases) (simp_all add: reset_fields)
  moreover have "\<forall>q rest con. bankroll q < ante \<longrightarrow>
            turns max_bet ante (q # rest) con =
              (case turns max_bet ante rest con of
                 Inl e \<Rightarrow> Inl e
               | Inr (qs, con') \<Rightarrow>
                   Inr (q\<lparr>outcome := Text ''Cannot cover ante; skipped.''\<rparr> # qs, con'))"
    by (simp add: turn_skip)
  ultimately show ?thesis
    using len by simp
qed

theorem round_skipped_witness:
  "play_round rev example_players 50 5 example_console = Inr (example_result, []) \<and>
   4 < length example_players \<and> bankroll (example_players ! 4) < 5 \<and>
   outcome (example_result ! 4) = Text ''Cannot cover ante; skipped.'' \<and>
   bankroll (example_result ! 4) = 3 \<and> ante_paid (example_result ! 4) = 0 \<and>
   bet (example_result ! 4) = 0 \<and> payout (example_result ! 4) = 0 \<and>
   length (hand (example_result ! 4)) = 4 \<and>
   bankroll (Player ''Ed'' 3) < 5 \<and>
   turns 50 5 [Player ''Ed'' 3] [Blank] =
     Inr ([(Player ''Ed'' 3)\<lparr>outcome := Text ''Cannot cover ante; skipped.''\<rparr>], [Blank])"
proof -
  have i: "4 < length example_players"
    by (simp add: example_players_def)
  have b: "bankroll (example_players ! 4) < 5"
    by (simp add: example_players_def Player_def)
  have e: "bankroll (Player ''Ed'' 3) < 5"
    by (simp add: Player_def)
  have "turns 50 5 [Player ''Ed'' 3] [Blank] =
     Inr ([(Player ''Ed'' 3)\<lparr>outcome := Text ''Cannot cover ante; skipped.''\<rparr>], [Blank])"
    using e round_skipped [OF example_round i b] by simp
  then show ?thesis
    using example_round i b e round_skipped [OF example_round i b]
    by (simp add: example_players_def example_result_def Player_def)
qed





subsection \<open>When the round completes\<close>

text \<open>
  A round raises nothing when the shuffled deck holds four cards of the fresh deck for
  every player and the console holds at least one empty line per player (an empty line
  always ends a prompt). With a true permutation of the 54 cards this means at most 13
  players.
\<close>

lemma deck_init_ranks: "\<forall>c \<in> set (cards Deck_init). rank c \<in> set RANKS \<or> rank c = JOKER"
proof -
  have "list_all (\<lambda>c. rank c \<in> set RANKS \<or> rank c = JOKER) (cards Deck_init)"
    by code_simp
  then show ?thesis
    by (simp add: list_all_iff)
qed

lemma score_hand_returns:
  assumes "\<forall>c \<in> set cs. rank c \<in> set RANKS \<or> rank c = JOKER"
  shows "\<exists>t. score_hand cs = Inr t"
proof -
  have "\<forall>c \<in> set cs. value c = Inr (spec_value (rank c))"
    using assms by (simp add: value_rank)
  then have "map value (filter (\<lambda>c. rank c \<noteq> JOKER) cs) =
        map Inr (map (\<lambda>c. spec_value (rank c)) (filter (\<lambda>c. rank c \<noteq> JOKER) cs))"
    by simp
  then show ?thesis
    by (simp add: score_hand_def sum_from_Inr del: map_map)
qed

lemma deal_returns:
  "4 * length ps \<le> length (cards d) \<Longrightarrow> \<exists>qs d'. deal d ps = Inr (qs, d')"
proof (induction ps arbitrary: d)
  case Nil
  show ?case by simp
next
  case (Cons p ps)
  let ?d1 = "d\<lparr>cards := drop 4 (cards d)\<rparr>"
  have "draw d 4 = (Inr (take (nat 4) (cards d)), d\<lparr>cards := drop (nat 4) (cards d)\<rparr>)"
    using Cons.prems by (intro draw_nonneg) simp_all
  then have dr: "draw d 4 = (Inr (take 4 (cards d)), ?d1)"
    by simp
  have "4 * length ps \<le> length (cards ?d1)"
    using Cons.prems by simp
  from Cons.IH [OF this] obtain qs d' where "deal ?d1 ps = Inr (qs, d')"
    by blast
  with dr show ?case
    by simp
qed

lemma prompt_bet_returns:
  "Blank \<in> set inp \<Longrightarrow>
   \<exists>v inp'. prompt_bet p mb inp = Inr (v, inp') \<and>
     length (filter (\<lambda>l. l = Blank) inp) \<le> Suc (length (filter (\<lambda>l. l = Blank) inp'))"
  by (induction p mb inp rule: prompt_bet.induct) auto

lemma turn_returns:
  assumes "hand p \<noteq> []" and "\<forall>c \<in> set (hand p). rank c \<in> set RANKS \<or> rank c = JOKER"
    and "Blank \<in> set inp"
  shows "\<exists>p' inp'. turn mb a p inp = Inr (p', inp') \<and>
     length (filter (\<lambda>l. l = Blank) inp) \<le> Suc (length (filter (\<lambda>l. l = Blank) inp'))"
proof (cases "bankroll p < a")
  case True
  then show ?thesis
    by (simp add: turn_skip)
next
  case elig: False
  let ?p2 = "p\<lparr>bankroll := bankroll p - a, ante_paid := a\<rparr>"
  have pay1: "pay p a = Inr (p\<lparr>bankroll := bankroll p - a\<rparr>)"
    using elig by (simp add: pay_def)
  obtain c cs where h: "hand p = c # cs"
    using assms(1) by (cases "hand p") simp_all
  from prompt_bet_returns [OF assms(3)] obtain v inp1 where
    pb: "prompt_bet ?p2 mb inp = Inr (v, inp1)" and
    n: "length (filter (\<lambda>l. l = Blank) inp) \<le> Suc (length (filter (\<lambda>l. l = Blank) inp1))"
    by blast
  show ?thesis
  proof (cases "v = 0")
    case True
    then show ?thesis
      using elig assms(1) pb n by (simp add: turn_no_bet)
  next
    case nz: False
    have "v \<le> bankroll ?p2"
      using prompt_bet_range [OF pb] nz by simp
    then have pay2:
      "pay (?p2\<lparr>bet := v\<rparr>) v = Inr (?p2\<lparr>bet := v, bankroll := bankroll p - a - v\<rparr>)"
      by (simp add: pay_def)
    from score_hand_returns [OF assms(2)] obtain t where sc: "score_hand (hand p) = Inr t"
      by blast
    have "\<exists>p'. turn mb a p inp = Inr (p', inp1)"
      using elig pay1 h pb nz pay2 sc [unfolded h]
      by (cases "hand_has_joker (c # cs)"; cases "32 \<le> t")
        (simp_all add: turn_def credit_def Let_def)
    with n show ?thesis
      by blast
  qed
qed

lemma turns_returns:
  assumes "\<forall>p \<in> set ps. hand p \<noteq> [] \<and> (\<forall>c \<in> set (hand p). rank c \<in> set RANKS \<or> rank c = JOKER)"
    and "length ps \<le> length (filter (\<lambda>l. l = Blank) inp)"
  shows "\<exists>qs inp'. turns mb a ps inp = Inr (qs, inp')"
  using assms
proof (induction ps arbitrary: inp)
  case Nil
  show ?case by simp
next
  case (Cons p ps)
  have "filter (\<lambda>l. l = Blank) inp \<noteq> []"
    using Cons.prems(2) by auto
  then have b: "Blank \<in> set inp"
    by (auto simp: filter_empty_conv)
  have hp: "hand p \<noteq> []" "\<forall>c \<in> set (hand p). rank c \<in> set RANKS \<or> rank c = JOKER"
    using Cons.prems(1) by simp_all
  from turn_returns [OF hp b] obtain p' inp1 where
    t: "turn mb a p inp = Inr (p', inp1)" and
    n: "length (filter (\<lambda>l. l = Blank) inp) \<le> Suc (length (filter (\<lambda>l. l = Blank) inp1))"
    by blast
  have "length ps \<le> length (filter (\<lambda>l. l = Blank) inp1)"
    using Cons.prems(2) n by simp
  moreover have "\<forall>p \<in> set ps. hand p \<noteq> [] \<and>
      (\<forall>c \<in> set (hand p). rank c \<in> set RANKS \<or> rank c = JOKER)"
    using Cons.prems(1) by simp
  ultimately obtain qs inp' where "turns mb a ps inp1 = Inr (qs, inp')"
    using Cons.IH by blast
  with t show ?case
    by simp
qed

lemma play_round_returns:
  assumes "set (perm (cards Deck_init)) \<subseteq> set (cards Deck_init)"
    and "4 * length ps \<le> length (perm (cards Deck_init))"
    and "length ps \<le> length (filter (\<lambda>l. l = Blank) inp)"
  shows "\<exists>ps' inp'. play_round perm ps max_bet ante inp = Inr (ps', inp')"
proof -
  let ?cs = "perm (cards Deck_init)"
  have cs: "cards (shuffle perm Deck_init) = ?cs"
    by (simp add: shuffle_def)
  from deal_returns [of ps "shuffle perm Deck_init"] assms(2) obtain qs d' where
    de: "deal (shuffle perm Deck_init) ps = Inr (qs, d')"
    unfolding cs by blast
  note D = deal_nth [OF de, unfolded cs]
  have "hand q \<noteq> [] \<and> (\<forall>c \<in> set (hand q). rank c \<in> set RANKS \<or> rank c = JOKER)"
    if "q \<in> set qs" for q
  proof -
    from that obtain i where i: "i < length ps" and q: "q = qs ! i"
      using D by (auto simp: in_set_conv_nth)
    have hq: "hand q = take 4 (drop (4 * i) ?cs)"
      using D i q by (simp add: reset_fields)
    have "length (hand q) = 4"
      unfolding hq using assms(2) i by (rule dealt_hand_length)
    moreover have "set (hand q) \<subseteq> set (cards Deck_init)"
      unfolding hq using assms(1) set_take_subset set_drop_subset by fast
    ultimately show ?thesis
      using deck_init_ranks by auto
  qed
  moreover have "length qs \<le> length (filter (\<lambda>l. l = Blank) inp)"
    using D assms(3) by simp
  ultimately obtain ps' inp' where "turns max_bet ante qs inp = Inr (ps', inp')"
    using turns_returns [of qs inp max_bet ante] by blast
  with de show ?thesis
    by (simp add: play_round_def)
qed

end
